theory Spec2Isabelle
  imports Main "HOL-Library.Sublist"
begin

section \<open>The risk classifier of the results page (src/pages/Results.tsx)\<close>

text \<open>
  The classifier is a handful of pure string functions: \<open>hasWord\<close>, \<open>normalizeRisk\<close>,
  \<open>riskFromCombined\<close>, \<open>summarizeSingle\<close>, \<open>riskExplanation\<close>, and the expression that
  computes \<open>overallRisk\<close> inside \<open>ResultsPage\<close>. They are embedded below, one definition
  per source function, in the order of the source.

  A string of the host language is a sequence of code units. It is modelled as a
  \<^typ>\<open>string\<close> whose characters are the code units U+0000 to U+00FF (Latin-1), one
  \<^typ>\<open>char\<close> per code unit: every such list is a string the program can receive, and
  the library functions below are those of ECMAScript on that range. Strings with
  code units beyond U+00FF are outside the model.

  Three names of the source are keywords or library constants here and carry a mark:
  the method \<open>includes\<close> is \<open>str_includes\<close>, the field \<open>text\<close> of a summary is
  \<open>text'\<close>, and a payload is the record \<open>Results\<close> of the fields that the
  classification reads, each at the type the functions declare for it.
\<close>

subsection \<open>Values, errors and the string methods the program calls\<close>

text \<open>
  An optional parameter (\<open>r?: string | null\<close>, \<open>combined?: string\<close>,
  \<open>prediction?: string\<close>) holds \<open>undefined\<close>, \<open>null\<close> or a string.
\<close>

datatype jsval = Undefined | Null | Str string

text \<open>
  What can go wrong at run time in these functions: a method called on \<open>undefined\<close> or
  \<open>null\<close> throws a TypeError, and the \<open>RegExp\<close> constructor throws a SyntaxError on a
  pattern it cannot parse.
\<close>

datatype js_error = TypeError | SyntaxError

text \<open>Truthiness, as \<open>!x\<close> and \<open>x || y\<close> read it: the empty string is falsy.\<close>

fun truthy :: "jsval \<Rightarrow> bool" where
  "truthy Undefined = False"
| "truthy Null = False"
| "truthy (Str s) = (s \<noteq> [])"

definition js_or :: "jsval \<Rightarrow> jsval \<Rightarrow> jsval" where
  "js_or a b = (if truthy a then a else b)"

text \<open>
  Case mapping on U+0000..U+00FF. The upper-case letters are A..Z (65..90) and
  U+00C0..U+00DE without the multiplication sign U+00D7; each has its lower-case
  partner 32 above it, that is, with bit 5 set. The lower-case letters with an
  upper-case partner in the range are a..z (97..122) and U+00E0..U+00FE without the
  division sign U+00F7.
\<close>

definition is_upper :: "char \<Rightarrow> bool" where
  "is_upper c = (let n = (of_char c :: nat) in
     (65 \<le> n \<and> n \<le> 90) \<or> (192 \<le> n \<and> n \<le> 222 \<and> n \<noteq> 215))"

definition is_lower :: "char \<Rightarrow> bool" where
  "is_lower c = (let n = (of_char c :: nat) in
     (97 \<le> n \<and> n \<le> 122) \<or> (224 \<le> n \<and> n \<le> 254 \<and> n \<noteq> 247))"

fun with_bit5 :: "bool \<Rightarrow> char \<Rightarrow> char" where
  "with_bit5 b (Char b0 b1 b2 b3 b4 b5 b6 b7) = Char b0 b1 b2 b3 b4 b b6 b7"

definition toLower_char :: "char \<Rightarrow> char" where
  "toLower_char c = (if is_upper c then with_bit5 True c else c)"

definition toUpper_char :: "char \<Rightarrow> char" where
  "toUpper_char c = (if is_lower c then with_bit5 False c else c)"

text \<open>\<open>String.prototype.toLowerCase\<close>: code unit by code unit on this range.\<close>

definition toLowerCase :: "string \<Rightarrow> string" where
  "toLowerCase s = map toLower_char s"

text \<open>
  \<open>String.prototype.trim\<close> removes white space and line terminators from both ends.
  On this range they are TAB, LF, VT, FF, CR, SPACE and the no-break space U+00A0.
\<close>

definition is_space :: "char \<Rightarrow> bool" where
  "is_space c = (of_char c \<in> {9, 10, 11, 12, 13, 32, 160 :: nat})"

definition trim :: "string \<Rightarrow> string" where
  "trim s = rev (dropWhile is_space (rev (dropWhile is_space s)))"

text \<open>A method call on a value: a TypeError unless the receiver is a string.\<close>

fun call_toLowerCase :: "jsval \<Rightarrow> js_error + string" where
  "call_toLowerCase (Str s) = Inr (toLowerCase s)"
| "call_toLowerCase v = Inl TypeError"

fun call_trim :: "jsval \<Rightarrow> js_error + string" where
  "call_trim (Str s) = Inr (trim s)"
| "call_trim v = Inl TypeError"

text \<open>\<open>String.prototype.includes\<close>: the argument occurs as a contiguous substring.\<close>

fun str_includes :: "string \<Rightarrow> string \<Rightarrow> bool" where
  "str_includes [] w = (w = [])"
| "str_includes (x # xs) w = (prefix w (x # xs) \<or> str_includes xs w)"

subsection \<open>The regular expressions that \<open>hasWord\<close> builds\<close>

text \<open>
  \<open>hasWord\<close> calls \<open>new RegExp(p, 'i')\<close> on a pattern string and \<open>test\<close> on the result.
  The pattern language is modelled on the fragment the function can build: a sequence
  of word-boundary assertions \<open>\b\<close>, identity escapes of the fourteen syntax characters,
  and ordinary pattern characters. \<open>parse_pattern\<close> returns \<open>None\<close> on every other
  pattern (an unescaped syntax character, another escape, a lone backslash at the end),
  and the constructor is then modelled as throwing: the real constructor throws on
  some of these patterns and builds an operator on the others, so the model throws at
  least where the real one does.
\<close>

definition backslash :: char where
  "backslash = CHR 0x5C"

definition syntax_chars :: "char list" where
  "syntax_chars = ''.*+?^${}()|[]'' @ [backslash]"

datatype re_term = WordBoundary | PatternChar char

fun parse_pattern :: "string \<Rightarrow> re_term list option" where
  "parse_pattern [] = Some []"
| "parse_pattern [c] =
     (if c \<in> set syntax_chars then None else Some [PatternChar c])"
| "parse_pattern (c # d # ds) =
     (if c = backslash then
        (if d = CHR ''b'' then map_option (Cons WordBoundary) (parse_pattern ds)
         else if d \<in> set syntax_chars then map_option (Cons (PatternChar d)) (parse_pattern ds)
         else None)
      else if c \<in> set syntax_chars then None
      else map_option (Cons (PatternChar c)) (parse_pattern (d # ds)))"

definition new_RegExp_i :: "string \<Rightarrow> js_error + re_term list" where
  "new_RegExp_i p = (case parse_pattern p of None \<Rightarrow> Inl SyntaxError | Some ts \<Rightarrow> Inr ts)"

text \<open>
  Matching with the flag \<open>i\<close> and without the flag \<open>u\<close>. A word character is one of
  \<open>a..z\<close>, \<open>A..Z\<close>, \<open>0..9\<close> and \<open>_\<close>. Two code units match when they have the same
  canonical form, which is the upper-case mapping when that is a single code unit and
  does not take a non-ASCII unit into ASCII. On this range only U+00B5 and U+00FF have an
  upper-case partner beyond U+00FF, and nothing else in the range shares it, so they
  stand for themselves here, as does U+00DF, whose upper case is two units.
\<close>

definition is_word_char :: "char \<Rightarrow> bool" where
  "is_word_char c = (let n = (of_char c :: nat) in
     (97 \<le> n \<and> n \<le> 122) \<or> (65 \<le> n \<and> n \<le> 90) \<or> (48 \<le> n \<and> n \<le> 57) \<or> n = 95)"

definition canonicalize :: "char \<Rightarrow> char" where
  "canonicalize c = toUpper_char c"

text \<open>
  The position in the input is the pair of the code unit just before it (\<open>None\<close> at
  the start) and the rest of the input. \<open>\b\<close> holds where exactly one of the two
  neighbours is a word character; outside the input there is none.
\<close>

fun word_at :: "char option \<Rightarrow> bool" where
  "word_at None = False"
| "word_at (Some c) = is_word_char c"

fun first :: "string \<Rightarrow> char option" where
  "first [] = None"
| "first (x # xs) = Some x"

definition at_boundary :: "char option \<Rightarrow> string \<Rightarrow> bool" where
  "at_boundary prev rest = (word_at prev \<noteq> word_at (first rest))"

fun match_terms :: "re_term list \<Rightarrow> char option \<Rightarrow> string \<Rightarrow> bool" where
  "match_terms [] prev rest = True"
| "match_terms (WordBoundary # ts) prev rest =
     (at_boundary prev rest \<and> match_terms ts prev rest)"
| "match_terms (PatternChar c # ts) prev [] = False"
| "match_terms (PatternChar c # ts) prev (x # xs) =
     (canonicalize x = canonicalize c \<and> match_terms ts (Some x) xs)"

text \<open>
  \<open>RegExp.prototype.test\<close> without the flags \<open>g\<close> and \<open>y\<close>: the match is tried at
  every start position from the left, the end of the input included.
\<close>

fun test_from :: "re_term list \<Rightarrow> char option \<Rightarrow> string \<Rightarrow> bool" where
  "test_from ts prev [] = match_terms ts prev []"
| "test_from ts prev (x # xs) = (match_terms ts prev (x # xs) \<or> test_from ts (Some x) xs)"

definition RegExp_test :: "re_term list \<Rightarrow> string \<Rightarrow> bool" where
  "RegExp_test ts s = test_from ts None s"

subsection \<open>hasWord\<close>

text \<open>
  \<^verbatim>\<open>word.replace(/[.*+?^${}()|[\]\\]/g, '\\$&')\<close> puts a backslash before every syntax
  character of the word; the template puts \<open>\b\<close> on both sides.
\<close>

definition escape_word :: "string \<Rightarrow> string" where
  "escape_word word =
     concat (map (\<lambda>c. if c \<in> set syntax_chars then [backslash, c] else [c]) word)"

definition word_pattern :: "string \<Rightarrow> string" where
  "word_pattern word = [backslash, CHR ''b''] @ escape_word word @ [backslash, CHR ''b'']"

definition hasWord :: "string \<Rightarrow> string \<Rightarrow> js_error + bool" where
  "hasWord haystack word =
     (case new_RegExp_i (word_pattern word) of
        Inl e \<Rightarrow> Inl e
      | Inr re \<Rightarrow> Inr (RegExp_test re haystack))"

subsection \<open>normalizeRisk\<close>

datatype RiskLevel = Low | Moderate | High | Unknown

text \<open>A \<open>RiskLevel\<close> is the string literal of its name; \<open>as_RiskLevel\<close> reads one back.\<close>

fun RiskLevel_str :: "RiskLevel \<Rightarrow> string" where
  "RiskLevel_str Low = ''low''"
| "RiskLevel_str Moderate = ''moderate''"
| "RiskLevel_str High = ''high''"
| "RiskLevel_str Unknown = ''unknown''"

definition as_RiskLevel :: "string \<Rightarrow> RiskLevel" where
  "as_RiskLevel s =
     (if s = ''low'' then Low else if s = ''moderate'' then Moderate
      else if s = ''high'' then High else Unknown)"

definition normalizeRisk :: "jsval \<Rightarrow> js_error + RiskLevel" where
  "normalizeRisk r =
     (case call_trim (js_or r (Str [])) of
        Inl e \<Rightarrow> Inl e
      | Inr t \<Rightarrow>
          (case call_toLowerCase (Str t) of
             Inl e \<Rightarrow> Inl e
           | Inr s \<Rightarrow>
               if s = ''low'' \<or> s = ''moderate'' \<or> s = ''high'' then Inr (as_RiskLevel s)
               else Inr Unknown))"

subsection \<open>riskFromCombined\<close>

definition low_phrases :: "string list" where
  "low_phrases = [''low risk'', ''no pcos'', ''non-pcos'', ''negative'', ''no symptoms'']"

definition high_phrases :: "string list" where
  "high_phrases = [''high risk'', ''positive'', ''pcos detected'', ''likely pcos'']"

definition mid_phrases :: "string list" where
  "mid_phrases = [''moderate'', ''possible'', ''may suggest'']"

definition riskFromCombined :: "jsval \<Rightarrow> js_error + RiskLevel" where
  "riskFromCombined combined =
     (if \<not> truthy combined then Inr Unknown
      else case call_toLowerCase combined of
        Inl e \<Rightarrow> Inl e
      | Inr lower \<Rightarrow>
          if list_ex (\<lambda>w. str_includes lower w) low_phrases then Inr Low
          else if list_ex (\<lambda>w. str_includes lower w) high_phrases then Inr High
          else if list_ex (\<lambda>w. str_includes lower w) mid_phrases then Inr Moderate
          else Inr Unknown)"

subsection \<open>summarizeSingle\<close>

datatype Status = Normal | Review

record ModalitySummary =
  status :: Status
  text' :: string

definition summary_normal :: ModalitySummary where
  "summary_normal = \<lparr>status = Normal, text' = ''Normal''\<rparr>"

definition summary_review :: ModalitySummary where
  "summary_review = \<lparr>status = Review, text' = ''Review Needed''\<rparr>"

definition summary_no_data :: ModalitySummary where
  "summary_no_data = \<lparr>status = Review, text' = ''No data''\<rparr>"

definition normalWords :: "string list" where
  "normalWords = [''normal'', ''healthy'', ''no symptoms'', ''negative'', ''non-pcos'', ''no pcos'']"

text \<open>
  \<open>Array.prototype.some\<close> with a callback that may throw: it stops at the first
  element the callback accepts, and an exception of the callback leaves the loop.
\<close>

fun some :: "('a \<Rightarrow> js_error + bool) \<Rightarrow> 'a list \<Rightarrow> js_error + bool" where
  "some f [] = Inr False"
| "some f (x # xs) =
     (case f x of
        Inl e \<Rightarrow> Inl e
      | Inr b \<Rightarrow> if b then Inr True else some f xs)"

definition summarizeSingle :: "jsval \<Rightarrow> RiskLevel option \<Rightarrow> js_error + ModalitySummary" where
  "summarizeSingle prediction explicitRisk =
     (if explicitRisk \<noteq> None \<and> explicitRisk \<noteq> Some Unknown then
        (if explicitRisk = Some Low then Inr summary_normal else Inr summary_review)
      else if \<not> truthy prediction then Inr summary_no_data
      else case call_toLowerCase prediction of
        Inl e \<Rightarrow> Inl e
      | Inr l \<Rightarrow>
          (case call_trim (Str l) of
             Inl e \<Rightarrow> Inl e
           | Inr p \<Rightarrow>
               if p = ''non_pcos'' \<or> p = ''non-pcos'' then Inr summary_normal
               else if p = ''unhealthy'' \<or> p = ''pcos'' \<or> p = ''positive'' \<or> p = ''pcos_positive''
               then Inr summary_review
               else (case some (\<lambda>w. hasWord p w) normalWords of
                  Inl e \<Rightarrow> Inl e
                | Inr b \<Rightarrow> if b then Inr summary_normal else Inr summary_review)))"

subsection \<open>riskExplanation\<close>

fun riskExplanation :: "RiskLevel \<Rightarrow> string" where
  "riskExplanation Low = ''The analysis shows minimal indicators typically associated with PCOS. Regular monitoring and healthy lifestyle practices are recommended.''"
| "riskExplanation Moderate = ''The analysis shows some potential indicators that may warrant further investigation. Consider consulting a healthcare professional for comprehensive evaluation.''"
| "riskExplanation High = ''The analysis indicates several markers that could be associated with PCOS symptoms. Professional medical consultation is strongly recommended.''"
| "riskExplanation _ = ''The analysis results are inconclusive. Additional testing or consultation may be needed for proper evaluation.''"

subsection \<open>The overall risk computed by ResultsPage\<close>

text \<open>
  The fields of the payload that the classification reads. Each may be absent.
\<close>

record Results =
  combined :: jsval
  face_pred :: jsval
  xray_pred :: jsval
  overall_risk :: jsval
  face_risk :: jsval
  xray_risk :: jsval

definition overallRisk :: "Results \<Rightarrow> js_error + RiskLevel" where
  "overallRisk results =
     (case normalizeRisk (overall_risk results) of
        Inl e \<Rightarrow> Inl e
      | Inr n \<Rightarrow>
          if n \<noteq> Unknown then normalizeRisk (overall_risk results)
          else riskFromCombined (combined results))"


section \<open>The properties, in the words of the specification\<close>

text \<open>
  The code unit just before the position reached by reading \<open>xs\<close> from a position
  whose previous code unit is \<open>prev\<close>.
\<close>

fun before :: "char option \<Rightarrow> string \<Rightarrow> char option" where
  "before prev [] = prev"
| "before prev (x # xs) = before (Some x) xs"

text \<open>
  A word occurs as a whole word in a haystack: some stretch of the haystack equals the
  word up to case, with a word boundary just before it and just after it.
\<close>

definition occurs_as_whole_word :: "string \<Rightarrow> string \<Rightarrow> bool" where
  "occurs_as_whole_word haystack word =
     (\<exists>pre mid post. haystack = pre @ mid @ post \<and>
        toLowerCase mid = toLowerCase word \<and>
        at_boundary (before None pre) (mid @ post) \<and>
        at_boundary (before None (pre @ mid)) post)"

text \<open>A sentence contains a phrase, case-insensitively.\<close>

definition contains_ci :: "string \<Rightarrow> string \<Rightarrow> bool" where
  "contains_ci sentence phrase =
     (\<exists>pre mid post. sentence = pre @ mid @ post \<and> toLowerCase mid = toLowerCase phrase)"

text \<open>
  The decision order of the summarizer, step by step as the specification lists it:
  (1) an explicit risk that is present and not \<open>unknown\<close> decides alone; (2) no label
  supplied gives "No data"; (3) the lowercased and trimmed label is compared with the
  exact tokens; (4) a normal-indicating word occurring as a whole word gives normal;
  (5) everything else is review.
\<close>

definition summarizeSingle_spec :: "jsval \<Rightarrow> RiskLevel option \<Rightarrow> ModalitySummary" where
  "summarizeSingle_spec label explicitRisk =
     (if explicitRisk \<noteq> None \<and> explicitRisk \<noteq> Some Unknown then
        (if explicitRisk = Some Low then summary_normal else summary_review)
      else case label of
        Undefined \<Rightarrow> summary_no_data
      | Null \<Rightarrow> summary_no_data
      | Str l \<Rightarrow>
          (let p = trim (toLowerCase l) in
           if p \<in> {''non_pcos'', ''non-pcos''} then summary_normal
           else if p \<in> {''unhealthy'', ''pcos'', ''positive'', ''pcos_positive''} then summary_review
           else if \<exists>w \<in> set normalWords. occurs_as_whole_word p w then summary_normal
           else summary_review))"

section \<open>Auxiliary facts\<close>

subsection \<open>Case mapping adds or removes 32\<close>

lemma toLower_char_code: "is_upper c \<Longrightarrow> of_char (toLower_char c) = (of_char c :: nat) + 32"
proof (cases c)
  case (Char b0 b1 b2 b3 b4 b5 b6 b7)
  assume u: "is_upper c"
  have "\<not> b5"
  proof
    assume b5
    with u Char show False
      by (cases b0; cases b1; cases b2; cases b3; cases b4; cases b6; cases b7)
         (simp_all add: is_upper_def)
  qed
  with u Char show ?thesis
    by (simp add: toLower_char_def)
qed

lemma toUpper_char_code: "is_lower c \<Longrightarrow> of_char (toUpper_char c) + 32 = (of_char c :: nat)"
proof (cases c)
  case (Char b0 b1 b2 b3 b4 b5 b6 b7)
  assume u: "is_lower c"
  have "b5"
  proof (rule ccontr)
    assume "\<not> b5"
    with u Char show False
      by (cases b0; cases b1; cases b2; cases b3; cases b4; cases b6; cases b7)
         (simp_all add: is_lower_def)
  qed
  with u Char show ?thesis
    by (simp add: toUpper_char_def)
qed

text \<open>
  The case folding of the matcher and \<open>toLowerCase\<close> identify the same code units:
  each undoes the other.
\<close>

lemma toLower_char_nat:
  "(of_char (toLower_char c) :: nat) = (if is_upper c then of_char c + 32 else of_char c)"
  using toLower_char_code [of c] by (simp add: toLower_char_def)

lemma toUpper_char_nat:
  "(of_char (toUpper_char c) :: nat) = (if is_lower c then of_char c - 32 else of_char c)"
  using toUpper_char_code [of c] by (auto simp add: toUpper_char_def)

lemma char_eq_code: "(c = d) = ((of_char c :: nat) = of_char d)"
  by simp

lemma toLower_toUpper: "toLower_char (toUpper_char c) = toLower_char c"
proof (cases "is_lower c")
  case True
  then have "is_upper (toUpper_char c)" "\<not> is_upper c"
    unfolding is_upper_def [of "toUpper_char c"] toUpper_char_nat
    by (auto simp: is_lower_def is_upper_def Let_def)
  with True show ?thesis
    unfolding char_eq_code [of "toLower_char (toUpper_char c)"] toLower_char_nat toUpper_char_nat
    by (auto simp: is_lower_def Let_def)
next
  case False
  then show ?thesis by (simp add: toUpper_char_def)
qed

lemma toUpper_toLower: "toUpper_char (toLower_char c) = toUpper_char c"
proof (cases "is_upper c")
  case True
  then have "is_lower (toLower_char c)" "\<not> is_lower c"
    unfolding is_lower_def [of "toLower_char c"] toLower_char_nat
    by (auto simp: is_lower_def is_upper_def Let_def)
  with True show ?thesis
    unfolding char_eq_code [of "toUpper_char (toLower_char c)"] toLower_char_nat toUpper_char_nat
    by (auto simp: is_upper_def Let_def)
next
  case False
  then show ?thesis by (simp add: toLower_char_def)
qed

lemma canonicalize_eq_iff:
  "(canonicalize x = canonicalize y) = (toLower_char x = toLower_char y)"
  unfolding canonicalize_def
  by (metis toLower_toUpper toUpper_toLower)

lemma map_canonicalize_eq_iff:
  "(map canonicalize xs = map canonicalize ys) = (toLowerCase xs = toLowerCase ys)"
  unfolding toLowerCase_def
proof (induction xs arbitrary: ys)
  case Nil
  show ?case by simp
next
  case (Cons x xs)
  show ?case
    by (cases ys) (simp_all add: Cons.IH canonicalize_eq_iff)
qed

subsection \<open>The pattern of \<open>hasWord\<close> always parses\<close>

lemma call_trim_Str: "call_trim (js_or r (Str [])) = Inr (trim (case r of Str x \<Rightarrow> x | _ \<Rightarrow> []))"
  by (cases r) (auto simp: js_or_def trim_def)

lemma backslash_syntax: "backslash \<in> set syntax_chars"
  by (simp add: syntax_chars_def)

lemma b_not_syntax: "CHR ''b'' \<notin> set syntax_chars"
  by (simp add: syntax_chars_def backslash_def)

lemma parse_plain:
  "c \<notin> set syntax_chars \<Longrightarrow>
   parse_pattern (c # cs) = map_option (Cons (PatternChar c)) (parse_pattern cs)"
  using backslash_syntax by (cases cs) auto

lemma parse_escaped:
  "c \<in> set syntax_chars \<Longrightarrow>
   parse_pattern (backslash # c # cs) = map_option (Cons (PatternChar c)) (parse_pattern cs)"
  using b_not_syntax by auto

lemma parse_boundary:
  "parse_pattern (backslash # CHR ''b'' # cs) = map_option (Cons WordBoundary) (parse_pattern cs)"
  by simp

lemma parse_escape_word:
  "parse_pattern (escape_word w @ rest) =
   map_option (\<lambda>ts. map PatternChar w @ ts) (parse_pattern rest)"
proof (induction w)
  case Nil
  show ?case by (simp add: escape_word_def option.map_ident)
next
  case (Cons c w)
  have step: "escape_word (c # w) @ rest =
      (if c \<in> set syntax_chars then backslash # c # (escape_word w @ rest)
       else c # (escape_word w @ rest))"
    by (simp add: escape_word_def)
  show ?case
  proof (cases "c \<in> set syntax_chars")
    case True
    then have "parse_pattern (escape_word (c # w) @ rest) =
        map_option (Cons (PatternChar c)) (parse_pattern (escape_word w @ rest))"
      by (simp only: step if_True parse_escaped)
    then show ?thesis
      by (simp add: Cons.IH option.map_comp comp_def)
  next
    case False
    then have "parse_pattern (escape_word (c # w) @ rest) =
        map_option (Cons (PatternChar c)) (parse_pattern (escape_word w @ rest))"
      using parse_plain [OF False] by (simp add: step del: parse_pattern.simps)
    then show ?thesis
      by (simp add: Cons.IH option.map_comp comp_def)
  qed
qed

lemma parse_word_pattern:
  "parse_pattern (word_pattern w) = Some (WordBoundary # map PatternChar w @ [WordBoundary])"
proof -
  have "parse_pattern (word_pattern w) =
        map_option (Cons WordBoundary) (parse_pattern (escape_word w @ [backslash, CHR ''b'']))"
    unfolding word_pattern_def by (simp only: append_Cons append_Nil parse_boundary)
  also have "\<dots> = Some (WordBoundary # map PatternChar w @ [WordBoundary])"
    by (simp only: parse_escape_word parse_boundary) simp
  finally show ?thesis .
qed

lemma hasWord_eq:
  "hasWord haystack word =
   Inr (RegExp_test (WordBoundary # map PatternChar word @ [WordBoundary]) haystack)"
  by (simp add: hasWord_def new_RegExp_i_def parse_word_pattern)


lemma before_append: "before prev (xs @ ys) = before (before prev xs) ys"
  by (induction xs arbitrary: prev) simp_all

lemma match_literals:
  "match_terms (map PatternChar w @ ts) prev rest =
   (\<exists>mid post. rest = mid @ post \<and> map canonicalize mid = map canonicalize w \<and>
      match_terms ts (before prev mid) post)"
proof (induction w arbitrary: prev rest)
  case Nil
  show ?case by simp
next
  case (Cons c w)
  show ?case
  proof (cases rest)
    case Nil
    then show ?thesis by simp
  next
    case (Cons x xs)
    have "match_terms (map PatternChar (c # w) @ ts) prev rest =
          (canonicalize x = canonicalize c \<and>
           (\<exists>mid post. xs = mid @ post \<and> map canonicalize mid = map canonicalize w \<and>
              match_terms ts (before (Some x) mid) post))"
      by (simp add: Cons Cons.IH)
    also have "\<dots> = (\<exists>mid post. rest = mid @ post \<and>
          map canonicalize mid = map canonicalize (c # w) \<and>
          match_terms ts (before prev mid) post)"
    proof
      assume "canonicalize x = canonicalize c \<and>
           (\<exists>mid post. xs = mid @ post \<and> map canonicalize mid = map canonicalize w \<and>
              match_terms ts (before (Some x) mid) post)"
      then obtain mid post where m: "canonicalize x = canonicalize c" "xs = mid @ post"
        "map canonicalize mid = map canonicalize w" "match_terms ts (before (Some x) mid) post"
        by blast
      have "rest = (x # mid) @ post \<and> map canonicalize (x # mid) = map canonicalize (c # w) \<and>
          match_terms ts (before prev (x # mid)) post"
        using m Cons by simp
      then show "\<exists>mid post. rest = mid @ post \<and>
          map canonicalize mid = map canonicalize (c # w) \<and>
          match_terms ts (before prev mid) post"
        by blast
    next
      assume "\<exists>mid post. rest = mid @ post \<and>
          map canonicalize mid = map canonicalize (c # w) \<and>
          match_terms ts (before prev mid) post"
      then obtain mid post where m: "rest = mid @ post"
        "map canonicalize mid = map canonicalize (c # w)" "match_terms ts (before prev mid) post"
        by blast
      from m(2) obtain y ys where mid: "mid = y # ys"
        by (cases mid) auto
      with m Cons have "y = x" "xs = ys @ post" "canonicalize x = canonicalize c"
        "map canonicalize ys = map canonicalize w" "match_terms ts (before (Some x) ys) post"
        by auto
      then show "canonicalize x = canonicalize c \<and>
           (\<exists>mid post. xs = mid @ post \<and> map canonicalize mid = map canonicalize w \<and>
              match_terms ts (before (Some x) mid) post)"
        by blast
    qed
    finally show ?thesis .
  qed
qed

lemma test_from_iff:
  "test_from ts prev rest =
   (\<exists>pre post. rest = pre @ post \<and> match_terms ts (before prev pre) post)"
proof (induction rest arbitrary: prev)
  case Nil
  show ?case by simp
next
  case (Cons x xs)
  show ?case
  proof
    assume "test_from ts prev (x # xs)"
    then consider "match_terms ts prev (x # xs)" | "test_from ts (Some x) xs"
      by auto
    then show "\<exists>pre post. x # xs = pre @ post \<and> match_terms ts (before prev pre) post"
    proof cases
      case 1
      then have "x # xs = [] @ (x # xs) \<and> match_terms ts (before prev []) (x # xs)"
        by simp
      then show ?thesis by blast
    next
      case 2
      then obtain pre post where "xs = pre @ post" "match_terms ts (before (Some x) pre) post"
        using Cons.IH by blast
      then have "x # xs = (x # pre) @ post \<and> match_terms ts (before prev (x # pre)) post"
        by simp
      then show ?thesis by blast
    qed
  next
    assume "\<exists>pre post. x # xs = pre @ post \<and> match_terms ts (before prev pre) post"
    then obtain pre post where p: "x # xs = pre @ post" "match_terms ts (before prev pre) post"
      by blast
    show "test_from ts prev (x # xs)"
    proof (cases pre)
      case Nil
      with p have "match_terms ts prev (x # xs)" by simp
      then show ?thesis by simp
    next
      case (Cons y ys)
      with p have "xs = ys @ post" "match_terms ts (before (Some x) ys) post"
        by auto
      then have "test_from ts (Some x) xs"
        using Cons.IH by blast
      then show ?thesis by simp
    qed
  qed
qed

lemma RegExp_test_word:
  "RegExp_test (WordBoundary # map PatternChar word @ [WordBoundary]) haystack =
   occurs_as_whole_word haystack word"
proof -
  have "RegExp_test (WordBoundary # map PatternChar word @ [WordBoundary]) haystack =
        (\<exists>pre rest. haystack = pre @ rest \<and> at_boundary (before None pre) rest \<and>
           (\<exists>mid post. rest = mid @ post \<and> map canonicalize mid = map canonicalize word \<and>
              at_boundary (before (before None pre) mid) post))"
    by (simp add: RegExp_test_def test_from_iff match_literals)
  also have "\<dots> = occurs_as_whole_word haystack word"
    unfolding occurs_as_whole_word_def before_append map_canonicalize_eq_iff by blast
  finally show ?thesis .
qed

lemma hasWord_iff: "hasWord haystack word = Inr (occurs_as_whole_word haystack word)"
  by (simp only: hasWord_eq RegExp_test_word)

subsection \<open>Substrings\<close>

lemmas char_eval = toLower_char_def is_upper_def toUpper_char_def is_lower_def
  is_space_def is_word_char_def canonicalize_def

lemma str_includes_iff: "str_includes s w = (\<exists>pre post. s = pre @ w @ post)"
proof (induction s)
  case Nil
  show ?case by auto
next
  case (Cons x xs)
  show ?case
  proof
    assume "str_includes (x # xs) w"
    then consider "prefix w (x # xs)" | "str_includes xs w" by auto
    then show "\<exists>pre post. x # xs = pre @ w @ post"
    proof cases
      case 1
      then obtain post where "x # xs = [] @ w @ post" by (auto simp: prefix_def)
      then show ?thesis by blast
    next
      case 2
      then obtain pre post where "xs = pre @ w @ post" using Cons.IH by blast
      then have "x # xs = (x # pre) @ w @ post" by simp
      then show ?thesis by blast
    qed
  next
    assume "\<exists>pre post. x # xs = pre @ w @ post"
    then obtain pre post where p: "x # xs = pre @ w @ post" by blast
    show "str_includes (x # xs) w"
    proof (cases pre)
      case Nil
      with p have "prefix w (x # xs)" by (simp add: prefix_def)
      then show ?thesis by simp
    next
      case (Cons y ys)
      with p have "xs = ys @ w @ post" by simp
      then have "str_includes xs w" using Cons.IH by blast
      then show ?thesis by simp
    qed
  qed
qed

lemma includes_lower_iff:
  "toLowerCase w = w \<Longrightarrow> str_includes (toLowerCase s) w = contains_ci s w"
proof -
  assume w: "toLowerCase w = w"
  have "str_includes (toLowerCase s) w = (\<exists>pre post. map toLower_char s = pre @ w @ post)"
    by (simp add: str_includes_iff toLowerCase_def)
  also have "\<dots> = (\<exists>pre mid post. s = pre @ mid @ post \<and> map toLower_char mid = w)"
  proof
    assume "\<exists>pre post. map toLower_char s = pre @ w @ post"
    then obtain pre post where "map toLower_char s = pre @ (w @ post)" by auto
    then obtain us vs where a: "s = us @ vs" "w @ post = map toLower_char vs"
      by (auto simp: map_eq_append_conv)
    from a(2) obtain ms ps where b: "vs = ms @ ps" "w = map toLower_char ms"
      by (auto simp: append_eq_map_conv)
    from a(1) b have "s = us @ ms @ ps \<and> map toLower_char ms = w" by simp
    then show "\<exists>pre mid post. s = pre @ mid @ post \<and> map toLower_char mid = w" by blast
  next
    assume "\<exists>pre mid post. s = pre @ mid @ post \<and> map toLower_char mid = w"
    then obtain pre mid post where "s = pre @ mid @ post" "map toLower_char mid = w" by blast
    then have "map toLower_char s = map toLower_char pre @ w @ map toLower_char post" by simp
    then show "\<exists>pre post. map toLower_char s = pre @ w @ post" by blast
  qed
  also have "\<dots> = contains_ci s w"
    using w by (simp add: contains_ci_def toLowerCase_def)
  finally show ?thesis .
qed

lemma phrases_lower:
  "\<forall>w \<in> set (low_phrases @ high_phrases @ mid_phrases). toLowerCase w = w"
  by (simp add: low_phrases_def high_phrases_def mid_phrases_def toLowerCase_def char_eval)

lemma list_ex_includes:
  "\<forall>w \<in> set ws. toLowerCase w = w \<Longrightarrow>
   list_ex (\<lambda>w. str_includes (toLowerCase s) w) ws = (\<exists>w \<in> set ws. contains_ci s w)"
  by (simp add: list_ex_iff includes_lower_iff)

subsection \<open>The functions as equations\<close>

lemmas regex_eval = hasWord_def new_RegExp_i_def word_pattern_def escape_word_def
  syntax_chars_def backslash_def RegExp_test_def at_boundary_def

lemma some_hasWord:
  "some (\<lambda>w. hasWord p w) ws = Inr (\<exists>w \<in> set ws. occurs_as_whole_word p w)"
  by (induction ws) (simp_all add: hasWord_iff)

lemma no_occurrence_in_empty: "word \<noteq> [] \<Longrightarrow> \<not> occurs_as_whole_word [] word"
  by (auto simp: occurs_as_whole_word_def toLowerCase_def)

lemma normalWords_nonempty: "[] \<notin> set normalWords"
  by (simp add: normalWords_def)

lemma toLower_space: "is_space c \<Longrightarrow> toLower_char c = c"
  by (auto simp: is_space_def toLower_char_def is_upper_def)

lemma trim_spaces: "\<forall>c \<in> set l. is_space c \<Longrightarrow> trim (toLowerCase l) = []"
proof -
  assume a: "\<forall>c \<in> set l. is_space c"
  then have low: "toLowerCase l = l"
    by (simp add: toLowerCase_def toLower_space map_idI)
  from a have d: "dropWhile is_space l = []" by simp
  show ?thesis
    unfolding trim_def low d by simp
qed

lemma normalizeRisk_eq:
  "normalizeRisk r =
     Inr (let s = toLowerCase (trim (case r of Str x \<Rightarrow> x | _ \<Rightarrow> [])) in
          if s = ''low'' \<or> s = ''moderate'' \<or> s = ''high'' then as_RiskLevel s else Unknown)"
  by (simp add: normalizeRisk_def call_trim_Str Let_def)

lemma normalizeRisk_levels:
  "normalizeRisk (Str ''low'') = Inr Low"
  "normalizeRisk (Str ''moderate'') = Inr Moderate"
  "normalizeRisk (Str ''high'') = Inr High"
  "normalizeRisk (Str ''unknown'') = Inr Unknown"
  by (simp_all add: normalizeRisk_eq trim_def toLowerCase_def char_eval as_RiskLevel_def)

lemma normalizeRisk_total: "\<exists>lv. normalizeRisk r = Inr lv"
  by (simp add: normalizeRisk_eq)

lemma summarizeSingle_explicit:
  "e \<noteq> Unknown \<Longrightarrow>
   summarizeSingle prediction (Some e) = Inr (if e = Low then summary_normal else summary_review)"
  by (simp add: summarizeSingle_def)

lemma summarizeSingle_text:
  "explicitRisk = None \<or> explicitRisk = Some Unknown \<Longrightarrow> l \<noteq> [] \<Longrightarrow>
   summarizeSingle (Str l) explicitRisk =
     Inr (let p = trim (toLowerCase l) in
           if p \<in> {''non_pcos'', ''non-pcos''} then summary_normal
           else if p \<in> {''unhealthy'', ''pcos'', ''positive'', ''pcos_positive''} then summary_review
           else if \<exists>w \<in> set normalWords. occurs_as_whole_word p w then summary_normal
           else summary_review)"
  by (auto simp add: summarizeSingle_def some_hasWord Let_def)

lemma summarizeSingle_falsy:
  "explicitRisk = None \<or> explicitRisk = Some Unknown \<Longrightarrow> \<not> truthy prediction \<Longrightarrow>
   summarizeSingle prediction explicitRisk = Inr summary_no_data"
  by (auto simp add: summarizeSingle_def)


lemma riskFromCombined_total: "\<exists>lv. riskFromCombined sentence = Inr lv"
  by (cases sentence) (simp_all add: riskFromCombined_def)

lemma summarizeSingle_total: "\<exists>m. summarizeSingle prediction explicitRisk = Inr m"
proof (cases "explicitRisk = None \<or> explicitRisk = Some Unknown")
  case True
  show ?thesis
  proof (cases "truthy prediction")
    case False
    with True show ?thesis by (simp add: summarizeSingle_falsy)
  next
    case t: True
    then obtain l where "prediction = Str l" "l \<noteq> []"
      by (cases prediction) auto
    with True show ?thesis by (simp add: summarizeSingle_text)
  qed
next
  case False
  then obtain e where "explicitRisk = Some e" "e \<noteq> Unknown" by auto
  then show ?thesis by (simp add: summarizeSingle_explicit)
qed


section \<open>The claims\<close>

text \<open>
  Claim C6. \<open>hasWord\<close> is a case-insensitive whole-word match of the literal word:
  \<open>hasWord("unhealthy", "healthy")\<close> is false, \<open>hasWord("Healthy patient", "healthy")\<close>
  is true, and for every haystack and word the result is true exactly when the word
  occurs in the haystack, up to case, with a word boundary on both sides.
\<close>
theorem hasWord_whole_word:
  "hasWord ''unhealthy'' ''healthy'' = Inr False
   \<and> hasWord ''Healthy patient'' ''healthy'' = Inr True
   \<and> hasWord haystack word = Inr (occurs_as_whole_word haystack word)"
proof -
  have "hasWord ''unhealthy'' ''healthy'' = Inr False"
    by (simp add: regex_eval char_eval)
  moreover have "hasWord ''Healthy patient'' ''healthy'' = Inr True"
    by (simp add: regex_eval char_eval)
  ultimately show ?thesis
    by (simp only: hasWord_iff simp_thms)
qed

text \<open>
  Claim C7. The classification functions never throw. \<open>hasWord\<close> returns a boolean
  for every haystack and every word: the escaped word always parses to the sequence of
  its own characters between two word boundaries, so a syntax character of the word is
  matched literally (\<open>+\<close> is found in \<open>a+b\<close>, and \<open>.\<close> does not match the letter
  \<open>a\<close>). \<open>riskFromCombined\<close> returns a risk level on every input and \<open>unknown\<close> on
  the falsy ones (\<open>undefined\<close>, \<open>null\<close> and the empty string), and \<open>summarizeSingle\<close>
  returns a summary on every input.
\<close>
theorem classifier_never_throws:
  "(\<exists>b. hasWord haystack word = Inr b)
   \<and> new_RegExp_i (word_pattern word) = Inr (WordBoundary # map PatternChar word @ [WordBoundary])
   \<and> hasWord ''a+b'' ''+'' = Inr True
   \<and> hasWord ''a'' ''.'' = Inr False
   \<and> (\<exists>lv. riskFromCombined sentence = Inr lv)
   \<and> riskFromCombined Undefined = Inr Unknown
   \<and> riskFromCombined Null = Inr Unknown
   \<and> riskFromCombined (Str []) = Inr Unknown
   \<and> (\<exists>m. summarizeSingle prediction explicitRisk = Inr m)"
proof -
  have "\<exists>b. hasWord haystack word = Inr b"
    by (simp add: hasWord_eq)
  moreover have "new_RegExp_i (word_pattern word)
      = Inr (WordBoundary # map PatternChar word @ [WordBoundary])"
    by (simp add: new_RegExp_i_def parse_word_pattern)
  moreover have "hasWord ''a+b'' ''+'' = Inr True"
    by (simp add: regex_eval char_eval)
  moreover have "hasWord ''a'' ''.'' = Inr False"
    by (simp add: regex_eval char_eval)
  moreover have "riskFromCombined Undefined = Inr Unknown"
    "riskFromCombined Null = Inr Unknown" "riskFromCombined (Str []) = Inr Unknown"
    by (simp_all add: riskFromCombined_def)
  ultimately show ?thesis
    using riskFromCombined_total summarizeSingle_total by blast
qed

text \<open>
  Claim C2. \<open>riskFromCombined\<close> checks the low-risk phrases first, then the high-risk
  phrases, then the moderate ones, and the first set with a phrase contained in the
  sentence (case-insensitively) decides; a sentence with no phrase, and a missing or
  empty sentence, give \<open>unknown\<close>. The two sentences of the specification give \<open>low\<close>
  and \<open>high\<close>.
\<close>
theorem riskFromCombined_priority:
  "riskFromCombined (Str sentence) =
     Inr (if \<exists>w \<in> set low_phrases. contains_ci sentence w then Low
          else if \<exists>w \<in> set high_phrases. contains_ci sentence w then High
          else if \<exists>w \<in> set mid_phrases. contains_ci sentence w then Moderate
          else Unknown)
   \<and> riskFromCombined Undefined = Inr Unknown
   \<and> riskFromCombined Null = Inr Unknown
   \<and> riskFromCombined (Str []) = Inr Unknown
   \<and> riskFromCombined (Str ''Low risk, no PCOS detected'') = Inr Low
   \<and> riskFromCombined (Str ''High risk: PCOS detected'') = Inr High"
proof -
  have lo: "list_ex (\<lambda>w. str_includes (toLowerCase s) w) low_phrases
            = (\<exists>w \<in> set low_phrases. contains_ci s w)" for s
    using phrases_lower by (intro list_ex_includes) simp
  have hi: "list_ex (\<lambda>w. str_includes (toLowerCase s) w) high_phrases
            = (\<exists>w \<in> set high_phrases. contains_ci s w)" for s
    using phrases_lower by (intro list_ex_includes) simp
  have mi: "list_ex (\<lambda>w. str_includes (toLowerCase s) w) mid_phrases
            = (\<exists>w \<in> set mid_phrases. contains_ci s w)" for s
    using phrases_lower by (intro list_ex_includes) simp
  have nonempty: "\<not> contains_ci [] w" if "w \<noteq> []" for w
    using that by (auto simp: contains_ci_def toLowerCase_def)
  have empty: "\<not> (\<exists>w \<in> set (low_phrases @ high_phrases @ mid_phrases). contains_ci [] w)"
    using nonempty by (auto simp: low_phrases_def high_phrases_def mid_phrases_def)
  have general: "riskFromCombined (Str sentence) =
     Inr (if \<exists>w \<in> set low_phrases. contains_ci sentence w then Low
          else if \<exists>w \<in> set high_phrases. contains_ci sentence w then High
          else if \<exists>w \<in> set mid_phrases. contains_ci sentence w then Moderate
          else Unknown)"
  proof (cases "sentence = []")
    case True
    then show ?thesis using empty by (simp add: riskFromCombined_def)
  next
    case False
    then show ?thesis by (simp add: riskFromCombined_def lo hi mi)
  qed
  have e1: "riskFromCombined (Str ''Low risk, no PCOS detected'') = Inr Low"
    by (simp add: riskFromCombined_def low_phrases_def toLowerCase_def char_eval)
  have e2: "riskFromCombined (Str ''High risk: PCOS detected'') = Inr High"
    by (simp add: riskFromCombined_def low_phrases_def high_phrases_def toLowerCase_def char_eval)
  show ?thesis
    using general e1 e2 by (simp add: riskFromCombined_def)
qed
text \<open>
  Claim C5. \<open>normalizeRisk\<close> never fails. With \<open>s\<close> the input trimmed and lowercased
  (the empty string for a missing input), it returns \<open>s\<close> when \<open>s\<close> is \<open>low\<close>,
  \<open>moderate\<close> or \<open>high\<close>, and \<open>unknown\<close> for every other input, the missing and the
  empty ones among them.
\<close>
theorem normalizeRisk_contract:
  "(\<exists>lv. normalizeRisk r = Inr lv \<and>
      (let s = toLowerCase (trim (case r of Str x \<Rightarrow> x | _ \<Rightarrow> [])) in
       if s \<in> {''low'', ''moderate'', ''high''} then RiskLevel_str lv = s else lv = Unknown))
   \<and> normalizeRisk Undefined = Inr Unknown
   \<and> normalizeRisk Null = Inr Unknown
   \<and> normalizeRisk (Str []) = Inr Unknown
   \<and> normalizeRisk (Str ''  HiGh '') = Inr High"
proof -
  have "\<exists>lv. normalizeRisk r = Inr lv \<and>
      (let s = toLowerCase (trim (case r of Str x \<Rightarrow> x | _ \<Rightarrow> [])) in
       if s \<in> {''low'', ''moderate'', ''high''} then RiskLevel_str lv = s else lv = Unknown)"
    by (auto simp add: normalizeRisk_eq Let_def as_RiskLevel_def)
  moreover have "normalizeRisk Undefined = Inr Unknown" "normalizeRisk Null = Inr Unknown"
    "normalizeRisk (Str []) = Inr Unknown"
    by (simp_all add: normalizeRisk_eq trim_def toLowerCase_def)
  moreover have "normalizeRisk (Str ''  HiGh '') = Inr High"
    by (simp add: normalizeRisk_eq trim_def toLowerCase_def char_eval as_RiskLevel_def)
  ultimately show ?thesis by blast
qed

text \<open>
  Claim C8. \<open>normalizeRisk\<close> is idempotent: it returns a risk level on every input, and
  normalizing that level again returns the same level.
\<close>
theorem normalizeRisk_idempotent:
  "\<exists>lv. normalizeRisk r = Inr lv \<and> normalizeRisk (Str (RiskLevel_str lv)) = Inr lv"
proof -
  obtain lv where lv: "normalizeRisk r = Inr lv"
    using normalizeRisk_total by blast
  have "normalizeRisk (Str (RiskLevel_str lv)) = Inr lv"
    by (cases lv) (simp_all add: normalizeRisk_levels)
  with lv show ?thesis by blast
qed

text \<open>
  Claim C9. \<open>riskExplanation\<close> is a total lookup on the four risk levels: every level
  is one of the four, its text is not empty, the four texts are pairwise distinct, and
  \<open>unknown\<close> has the text that calls the results inconclusive and asks for additional
  testing.
\<close>
theorem riskExplanation_lookup:
  "risk \<in> {Low, Moderate, High, Unknown}
   \<and> riskExplanation risk \<noteq> []
   \<and> distinct (map riskExplanation [Low, Moderate, High, Unknown])
   \<and> riskExplanation Unknown = ''The analysis results are inconclusive. Additional testing or consultation may be needed for proper evaluation.''"
proof -
  have "risk \<in> {Low, Moderate, High, Unknown}" by (cases risk) simp_all
  moreover have "riskExplanation risk \<noteq> []" by (cases risk) simp_all
  moreover have "distinct (map riskExplanation [Low, Moderate, High, Unknown])" by simp
  ultimately show ?thesis by simp
qed

text \<open>
  Claim C3. The overall risk is the normalized \<open>overall_risk\<close> field when that is not
  \<open>unknown\<close>, and \<open>riskFromCombined\<close> of the \<open>combined\<close> field otherwise, in
  particular when \<open>overall_risk\<close> is absent.
\<close>
theorem overallRisk_two_tier:
  "\<exists>n. normalizeRisk (overall_risk results) = Inr n
     \<and> overallRisk results = (if n \<noteq> Unknown then Inr n else riskFromCombined (combined results))
     \<and> overallRisk (results\<lparr>overall_risk := Undefined\<rparr>) = riskFromCombined (combined results)"
proof -
  obtain n where n: "normalizeRisk (overall_risk results) = Inr n"
    using normalizeRisk_total by blast
  then have "overallRisk results =
      (if n \<noteq> Unknown then Inr n else riskFromCombined (combined results))"
    by (simp add: overallRisk_def)
  moreover have "normalizeRisk Undefined = Inr Unknown"
    by (simp add: normalizeRisk_eq trim_def toLowerCase_def)
  then have "overallRisk (results\<lparr>overall_risk := Undefined\<rparr>) = riskFromCombined (combined results)"
    by (simp add: overallRisk_def)
  ultimately show ?thesis using n by blast
qed

text \<open>
  Claim C4. An explicit risk other than \<open>unknown\<close> decides alone. Whatever the
  prediction label is, \<open>summarizeSingle\<close> returns normal for \<open>low\<close> and review for
  \<open>moderate\<close> and \<open>high\<close> (so \<open>summarizeSingle("anything", "low")\<close> is normal); and when
  the normalized \<open>overall_risk\<close> is not \<open>unknown\<close>, the overall risk is that level
  whatever the \<open>combined\<close> sentence is.
\<close>
theorem explicit_risk_takes_precedence:
  "summarizeSingle prediction (Some Low) = Inr summary_normal
   \<and> summarizeSingle prediction (Some Moderate) = Inr summary_review
   \<and> summarizeSingle prediction (Some High) = Inr summary_review
   \<and> summarizeSingle (Str ''anything'') (Some Low) = Inr summary_normal
   \<and> (normalizeRisk (overall_risk results) = Inr n \<and> n \<noteq> Unknown \<longrightarrow>
        overallRisk results = Inr n \<and> overallRisk (results\<lparr>combined := c\<rparr>) = Inr n)"
  by (simp add: summarizeSingle_explicit overallRisk_def)

text \<open>The theorem at a payload whose \<open>combined\<close> sentence says high and whose explicit field says low.\<close>

theorem explicit_risk_takes_precedence_witness:
  "normalizeRisk (overall_risk \<lparr>combined = Str ''High risk: PCOS detected'', face_pred = Undefined,
        xray_pred = Undefined, overall_risk = Str '' Low'', face_risk = Undefined,
        xray_risk = Undefined\<rparr>) = Inr Low
   \<and> Low \<noteq> Unknown
   \<and> overallRisk \<lparr>combined = Str ''High risk: PCOS detected'', face_pred = Undefined,
        xray_pred = Undefined, overall_risk = Str '' Low'', face_risk = Undefined,
        xray_risk = Undefined\<rparr> = Inr Low
   \<and> overallRisk \<lparr>combined = Undefined, face_pred = Undefined,
        xray_pred = Undefined, overall_risk = Str '' Low'', face_risk = Undefined,
        xray_risk = Undefined\<rparr> = Inr Low"
proof -
  let ?r = "\<lparr>combined = Str ''High risk: PCOS detected'', face_pred = Undefined,
        xray_pred = Undefined, overall_risk = Str '' Low'', face_risk = Undefined,
        xray_risk = Undefined\<rparr>"
  have h: "normalizeRisk (overall_risk ?r) = Inr Low \<and> Low \<noteq> Unknown"
    by (simp add: normalizeRisk_eq trim_def toLowerCase_def char_eval as_RiskLevel_def)
  from explicit_risk_takes_precedence [of _ ?r Low Undefined] h
  show ?thesis by simp
qed

text \<open>
  Claim C1, as amended. \<open>summarizeSingle\<close> follows the five steps of the specification
  on every pair of label and explicit risk, with one difference in step (2): with no
  deciding explicit risk, "No data" is returned not only when no label is supplied but
  also when the label is the empty string.
\<close>
theorem summarizeSingle_decision_order:
  "summarizeSingle prediction explicitRisk =
     Inr (if prediction = Str [] \<and> (explicitRisk = None \<or> explicitRisk = Some Unknown)
          then summary_no_data
          else summarizeSingle_spec prediction explicitRisk)"
proof (cases "explicitRisk = None \<or> explicitRisk = Some Unknown")
  case True
  show ?thesis
  proof (cases "truthy prediction")
    case False
    with True show ?thesis
      by (cases prediction) (auto simp: summarizeSingle_falsy summarizeSingle_spec_def)
  next
    case t: True
    then obtain l where "prediction = Str l" "l \<noteq> []"
      by (cases prediction) auto
    with True show ?thesis
      by (auto simp: summarizeSingle_text summarizeSingle_spec_def)
  qed
next
  case False
  then obtain e where "explicitRisk = Some e" "e \<noteq> Unknown" by auto
  then show ?thesis
    by (simp add: summarizeSingle_explicit summarizeSingle_spec_def)
qed

text \<open>
  The claim as the specification states it fails on the empty label: the code answers
  "No data" where the five steps, read with a supplied label, end at "Review Needed".
\<close>

theorem summarizeSingle_spec_counterexample:
  "summarizeSingle (Str []) None = Inr summary_no_data
   \<and> summarizeSingle_spec (Str []) None = summary_review
   \<and> summarizeSingle (Str []) None \<noteq> Inr (summarizeSingle_spec (Str []) None)"
proof -
  have code: "summarizeSingle (Str []) None = Inr summary_no_data"
    by (simp add: summarizeSingle_def)
  have "\<not> (\<exists>w \<in> set normalWords. occurs_as_whole_word [] w)"
    using normalWords_nonempty no_occurrence_in_empty by metis
  then have spec: "summarizeSingle_spec (Str []) None = summary_review"
    by (simp add: summarizeSingle_spec_def trim_def toLowerCase_def)
  have "summary_no_data \<noteq> summary_review"
    by (simp add: summary_no_data_def summary_review_def)
  with code spec show ?thesis by simp
qed

text \<open>
  Claim C10. With no explicit risk, or the explicit risk \<open>unknown\<close>, the empty label is
  treated as an absent one, "No data", while a label that is not empty and consists of
  white space only (\<open>" "\<close> for one) goes through the matching steps and ends as
  "Review Needed", a different summary.
\<close>
theorem empty_label_is_no_data:
  "explicitRisk = None \<or> explicitRisk = Some Unknown \<Longrightarrow>
   summarizeSingle (Str []) explicitRisk = Inr summary_no_data
   \<and> summarizeSingle Undefined explicitRisk = Inr summary_no_data
   \<and> summarizeSingle (Str '' '') explicitRisk = Inr summary_review
   \<and> (l \<noteq> [] \<and> (\<forall>c \<in> set l. is_space c) \<longrightarrow>
        summarizeSingle (Str l) explicitRisk = Inr summary_review)
   \<and> summary_no_data \<noteq> summary_review"
proof -
  assume e: "explicitRisk = None \<or> explicitRisk = Some Unknown"
  have ws: "summarizeSingle (Str s) explicitRisk = Inr summary_review"
    if "s \<noteq> []" "\<forall>c \<in> set s. is_space c" for s
  proof -
    have "\<not> (\<exists>w \<in> set normalWords. occurs_as_whole_word [] w)"
      using normalWords_nonempty no_occurrence_in_empty by metis 
    then show ?thesis
      using that e by (simp add: summarizeSingle_text trim_spaces)
  qed
  have "summarizeSingle (Str '' '') explicitRisk = Inr summary_review"
    by (rule ws) (simp_all add: is_space_def)
  moreover have "summary_no_data \<noteq> summary_review"
    by (simp add: summary_no_data_def summary_review_def)
  ultimately show ?thesis
    using e ws by (simp add: summarizeSingle_falsy)
qed

text \<open>The theorem with no explicit risk and the label TAB, SPACE, LF.\<close>

theorem empty_label_is_no_data_witness:
  "summarizeSingle (Str []) None = Inr summary_no_data
   \<and> summarizeSingle Undefined None = Inr summary_no_data
   \<and> summarizeSingle (Str '' '') None = Inr summary_review
   \<and> summarizeSingle (Str [CHR 0x09, CHR 0x20, CHR 0x0A]) None = Inr summary_review"
proof -
  have h: "[CHR 0x09, CHR 0x20, CHR 0x0A] \<noteq> [] \<and> (\<forall>c \<in> set [CHR 0x09, CHR 0x20, CHR 0x0A]. is_space c)"
    by (simp add: is_space_def)
  from empty_label_is_no_data [of None "[CHR 0x09, CHR 0x20, CHR 0x0A]"] h
  show ?thesis by blast
qed

end
